theory Spec2Isabelle
  imports Main "HOL-Library.Multiset"
begin

section \<open>Data model (src/db/schema.ts, src/lib/models.ts)\<close>

text \<open>
  A die is the object \<open>{ value: number; kept: boolean }\<close>; a dice set is an array of them.
  Face values are stored as JSON integers and are modelled as \<open>int\<close>. The array type
  does not fix the length, so \<open>Dice\<close> is a list of any length.
\<close>

record Die =
  die_value :: int
  kept :: bool

type_synonym Dice = "Die list"

datatype SpecialRollType = three_of_a_kind | stairs | super_stairs | shit_stairs | none

text \<open>Timestamps (\<open>Date\<close>) are modelled as milliseconds since the epoch.\<close>

type_synonym Date = int

text \<open>
  The result of \<open>calculateScore\<close> is a JavaScript number: an integer, or \<open>NaN\<close> once a
  face outside the point table has been added.
\<close>

datatype number = Num int | NaN

record SelectRoll =
  roll_id :: int
  roll_gameSessionId :: int
  playerTurnId :: int
  rollNumber :: int
  dice :: Dice
  rolledAt :: Date

record RollModel = SelectRoll +
  score :: number
  roll_specialRollType :: SpecialRollType

record SelectPlayerTurn =
  turn_id :: int
  turn_gameSessionId :: int
  roundId :: int
  participantId :: int
  turnOrder :: int

text \<open>\<open>finalScore: number | null\<close>: \<open>None\<close> is \<open>null\<close>.\<close>

record PlayerTurnModel = SelectPlayerTurn +
  rolls :: "RollModel list"
  totalRollsUsed :: nat
  finalScore :: "int option"
  isSafe :: bool
  specialRollType :: SpecialRollType
  completedAt :: Date

record SelectRound =
  round_id :: int
  round_gameSessionId :: int
  roundNumber :: int
  playerOrder :: "int list"
  startedAt :: Date

datatype RoundStatus = round_in_progress | round_completed

text \<open>
  \<open>startingParticipantId\<close> is \<open>playerOrder[0]\<close>, which is \<open>undefined\<close> for an empty
  player order: \<open>None\<close> here. The other optional fields are \<open>T | null\<close>.
\<close>

record RoundModel = SelectRound +
  turns :: "PlayerTurnModel list"
  round_status :: RoundStatus
  startingParticipantId :: "int option"
  maxRollsAllowed :: nat
  currentPenaltySips :: int
  finalPenaltySips :: "int option"
  losingParticipantId :: "int option"
  round_completedAt :: "Date option"



datatype PlayerType = registered | guest

record SelectGameParticipant =
  participant_id :: int
  participant_gameSessionId :: int
  playerId :: "int option"
  playerType :: PlayerType
  guestName :: "string option"
  joinedAt :: Date



datatype error = TypeError


section \<open>Pure utilities (src/lib/game-utils.ts)\<close>

text \<open>\<open>xs[i]\<close> of a JavaScript array: \<open>undefined\<close> (\<open>None\<close>) out of range.\<close>

definition idx :: "'a list \<Rightarrow> nat \<Rightarrow> 'a option" where
  "idx xs i = (if i < length xs then Some (xs ! i) else None)"

text \<open>\<open>xs[xs.length - 1]\<close>: \<open>undefined\<close> for the empty array.\<close>

definition lastElem :: "'a list \<Rightarrow> 'a option" where
  "lastElem xs = (if xs = [] then None else Some (last xs))"

text \<open>The table \<open>DICE_POINTS\<close>; a missing key reads as \<open>undefined\<close>.\<close>

definition DICE_POINTS :: "int \<Rightarrow> int option" where
  "DICE_POINTS = [1 \<mapsto> 100, 2 \<mapsto> 2, 3 \<mapsto> 3, 4 \<mapsto> 4, 5 \<mapsto> 5, 6 \<mapsto> 60]"

text \<open>\<open>sum + DICE_POINTS[d.value]\<close>: adding \<open>undefined\<close>, or adding to \<open>NaN\<close>, gives \<open>NaN\<close>.\<close>

fun addPoints :: "number \<Rightarrow> int option \<Rightarrow> number" where
  "addPoints (Num s) (Some p) = Num (s + p)"
| "addPoints (Num s) None = NaN"
| "addPoints NaN p = NaN"

definition calculateScore :: "Dice \<Rightarrow> number" where
  "calculateScore ds = foldl (\<lambda>sum d. addPoints sum (DICE_POINTS (die_value d))) (Num 0) ds"

definition detectSpecialRoll :: "Dice \<Rightarrow> SpecialRollType" where
  "detectSpecialRoll ds =
     (let values = sort (map die_value ds) in
      if idx values 0 = idx values 1 \<and> idx values 1 = idx values 2 then three_of_a_kind
      else if idx values 0 = Some 1 \<and> idx values 1 = Some 2 \<and> idx values 2 = Some 3 then stairs
      else if idx values 0 = Some 4 \<and> idx values 1 = Some 5 \<and> idx values 2 = Some 6
        then super_stairs
      else if (idx values 0 = Some 2 \<and> idx values 1 = Some 3 \<and> idx values 2 = Some 4)
            \<or> (idx values 0 = Some 3 \<and> idx values 1 = Some 4 \<and> idx values 2 = Some 5)
        then shit_stairs
      else none)"

definition isSafeRoll :: "SpecialRollType \<Rightarrow> bool" where
  "isSafeRoll t = (t \<noteq> none \<and> t \<noteq> shit_stairs)"

definition getThreeOfAKindSips :: "int \<Rightarrow> int" where
  "getThreeOfAKindSips diceValue = (if diceValue = 1 then 7 else diceValue)"

definition getStartingParticipant :: "int list \<Rightarrow> int option" where
  "getStartingParticipant po = idx po 0"

definition isSuperStairsValid :: "Dice \<Rightarrow> bool \<Rightarrow> bool" where
  "isSuperStairsValid currentDice previousTurnWasStairs =
     (let values = sort (map die_value currentDice);
          isStairs456 = (idx values 0 = Some 4 \<and> idx values 1 = Some 5 \<and> idx values 2 = Some 6)
      in isStairs456 \<and> previousTurnWasStairs)"

definition isRoundCompleteFromData :: "int list \<Rightarrow> nat \<Rightarrow> bool" where
  "isRoundCompleteFromData po turnCount = (turnCount = length po)"

text \<open>\<open>firstTurnRolls.length || 3\<close>: the length 0 is falsy.\<close>

definition getMaxRollsFromFirstTurn :: "'a list \<Rightarrow> nat" where
  "getMaxRollsFromFirstTurn firstTurnRolls =
     (if length firstTurnRolls = 0 then 3 else length firstTurnRolls)"

text \<open>
  The loop of \<open>calculatePenaltyFromTurns\<close>, with the running \<open>penaltySips\<close>. Reading
  \<open>lastRoll.dice\<close> of a turn without rolls, or \<open>dice[0].value\<close> of an empty dice array,
  throws a \<open>TypeError\<close>.
\<close>

fun penaltyLoop :: "int \<Rightarrow> PlayerTurnModel list \<Rightarrow> error + int" where
  "penaltyLoop penaltySips [] = Inr penaltySips"
| "penaltyLoop penaltySips (turn # rest) =
     (if specialRollType turn = three_of_a_kind then
        (case lastElem (rolls turn) of
           None \<Rightarrow> Inl TypeError
         | Some lastRoll \<Rightarrow>
             (case idx (dice lastRoll) 0 of
                None \<Rightarrow> Inl TypeError
              | Some d \<Rightarrow> penaltyLoop (penaltySips + getThreeOfAKindSips (die_value d)) rest))
      else penaltyLoop penaltySips rest)"

definition calculatePenaltyFromTurns :: "PlayerTurnModel list \<Rightarrow> error + int" where
  "calculatePenaltyFromTurns ts = penaltyLoop 1 ts"

text \<open>
  \<open>currentScore < lowestScore\<close> after \<open>finalScore ?? Number.POSITIVE_INFINITY\<close> on both
  sides: a \<open>null\<close> score counts as plus infinity.
\<close>

fun scoreLess :: "int option \<Rightarrow> int option \<Rightarrow> bool" where
  "scoreLess None lowest = False"
| "scoreLess (Some c) None = True"
| "scoreLess (Some c) (Some l) = (c < l)"

definition lowerTurn :: "PlayerTurnModel \<Rightarrow> PlayerTurnModel \<Rightarrow> PlayerTurnModel" where
  "lowerTurn lowest current =
     (if scoreLess (finalScore current) (finalScore lowest) then current else lowest)"

text \<open>\<open>reduce\<close> without an initial value starts from the first element.\<close>

definition findLoserFromTurns :: "PlayerTurnModel list \<Rightarrow> int option" where
  "findLoserFromTurns ts =
     (let unsafeTurns = filter (\<lambda>t. \<not> isSafe t) ts in
      case unsafeTurns of
        [] \<Rightarrow> None
      | first # rest \<Rightarrow> Some (participantId (foldl lowerTurn first rest)))"

text \<open>
  \<open>[shuffled[i], shuffled[j]] = [shuffled[j], shuffled[i]]\<close>, for indices inside the array.
\<close>

definition swap :: "nat \<Rightarrow> nat \<Rightarrow> 'a list \<Rightarrow> 'a list" where
  "swap i j xs = xs[i := xs ! j, j := xs ! i]"

text \<open>
  The loop of \<open>shuffleArray\<close>, for \<open>i\<close> from \<open>length - 1\<close> down to 1. The random choices
  are an explicit input: \<open>rnd i\<close> is the integer \<open>Math.floor(Math.random() * (i + 1))\<close>
  drawn at index \<open>i\<close>, which lies in \<open>0..i\<close>.
\<close>

fun shuffleLoop :: "(nat \<Rightarrow> nat) \<Rightarrow> nat \<Rightarrow> 'a list \<Rightarrow> 'a list" where
  "shuffleLoop rnd 0 shuffled = shuffled"
| "shuffleLoop rnd (Suc i) shuffled = shuffleLoop rnd i (swap (Suc i) (rnd (Suc i)) shuffled)"

definition shuffleArray :: "(nat \<Rightarrow> nat) \<Rightarrow> 'a list \<Rightarrow> 'a list" where
  "shuffleArray rnd array = shuffleLoop rnd (length array - 1) array"

text \<open>
  The parameters \<open>startingParticipantId\<close> and \<open>allParticipantIds\<close> are written
  \<open>startId\<close> and \<open>allIds\<close>.
\<close>

definition createPlayerOrder :: "(nat \<Rightarrow> nat) \<Rightarrow> int \<Rightarrow> int list \<Rightarrow> bool \<Rightarrow> int list" where
  "createPlayerOrder rnd startId allIds shuffleOrder =
     (let remaining = filter (\<lambda>i. i \<noteq> startId) allIds;
          orderedRemaining = (if shuffleOrder then shuffleArray rnd remaining else remaining)
      in startId # orderedRemaining)"


section \<open>Mappers (src/lib/mappers.ts)\<close>

definition mapRoll :: "SelectRoll \<Rightarrow> RollModel" where
  "mapRoll roll =
     \<lparr> roll_id = roll_id roll,
       roll_gameSessionId = roll_gameSessionId roll,
       playerTurnId = playerTurnId roll,
       rollNumber = rollNumber roll,
       dice = dice roll,
       rolledAt = rolledAt roll,
       score = calculateScore (dice roll),
       roll_specialRollType = detectSpecialRoll (dice roll) \<rparr>"

text \<open>\<open>lastRoll?.score || 0\<close>: \<open>NaN\<close> and 0 are falsy.\<close>

definition scoreOrZero :: "number \<Rightarrow> int" where
  "scoreOrZero n = (case n of NaN \<Rightarrow> 0 | Num k \<Rightarrow> if k = 0 then 0 else k)"

text \<open>
  \<open>mapPlayerTurn\<close> reads the wall clock (\<open>new Date()\<close>) when the turn has no roll; the
  reading is the explicit input \<open>now\<close>. A category string and a \<open>Date\<close> object are
  always truthy, so \<open>||\<close> takes its right operand only when \<open>lastRoll\<close> is undefined.
\<close>

definition mapPlayerTurn :: "Date \<Rightarrow> SelectPlayerTurn \<Rightarrow> SelectRoll list \<Rightarrow> PlayerTurnModel" where
  "mapPlayerTurn now turn rs =
     (let rollModels = map mapRoll rs;
          lastRoll = lastElem rollModels;
          specialRollType' = (case lastRoll of None \<Rightarrow> none | Some r \<Rightarrow> roll_specialRollType r);
          isSafe' = isSafeRoll specialRollType'
      in \<lparr> turn_id = turn_id turn,
            turn_gameSessionId = turn_gameSessionId turn,
            roundId = roundId turn,
            participantId = participantId turn,
            turnOrder = turnOrder turn,
            rolls = rollModels,
            totalRollsUsed = length rollModels,
            finalScore = (if isSafe' then None
                          else Some (case lastRoll of None \<Rightarrow> 0 | Some r \<Rightarrow> scoreOrZero (score r))),
            isSafe = isSafe',
            specialRollType = specialRollType',
            completedAt = (case lastRoll of None \<Rightarrow> now | Some r \<Rightarrow> rolledAt r) \<rparr>)"

text \<open>\<open>rollsByTurnId.get(turn.id) || []\<close>: an array, also an empty one, is truthy.\<close>

definition getOrEmpty :: "(int \<rightharpoonup> 'a list) \<Rightarrow> int \<Rightarrow> 'a list" where
  "getOrEmpty m k = (case m k of None \<Rightarrow> [] | Some xs \<Rightarrow> xs)"

definition mapRound ::
  "Date \<Rightarrow> SelectRound \<Rightarrow> SelectPlayerTurn list \<Rightarrow> (int \<rightharpoonup> SelectRoll list) \<Rightarrow> error + RoundModel"
where
  "mapRound now round ts rollsByTurnId =
     (let turnModels = map (\<lambda>turn. mapPlayerTurn now turn (getOrEmpty rollsByTurnId (turn_id turn))) ts;
          isComplete = isRoundCompleteFromData (playerOrder round) (length ts);
          status = (if isComplete then round_completed else round_in_progress);
          maxRolls = (case turnModels of [] \<Rightarrow> 3 | t # _ \<Rightarrow> getMaxRollsFromFirstTurn (rolls t))
      in case calculatePenaltyFromTurns turnModels of
           Inl e \<Rightarrow> Inl e
         | Inr penalty \<Rightarrow>
             Inr \<lparr> round_id = round_id round,
                   round_gameSessionId = round_gameSessionId round,
                   roundNumber = roundNumber round,
                   playerOrder = playerOrder round,
                   startedAt = startedAt round,
                   turns = turnModels,
                   round_status = status,
                   startingParticipantId = getStartingParticipant (playerOrder round),
                   maxRollsAllowed = maxRolls,
                   currentPenaltySips = penalty,
                   finalPenaltySips = (if isComplete then Some penalty else None),
                   losingParticipantId = (if isComplete then findLoserFromTurns turnModels else None),
                   round_completedAt =
                     (if isComplete \<and> length turnModels > 0
                      then map_option completedAt (lastElem turnModels) else None) \<rparr>)"




section \<open>Queries and service (src/db/queries, game-service.ts)\<close>

text \<open>
  The database is read-only state here: the rows of the two tables that the service reads.
  A query is a \<open>WHERE\<close> filter followed by \<open>ORDER BY\<close> on one column.
\<close>

record Database =
  playerTurnsTable :: "SelectPlayerTurn list"
  rollsTable :: "SelectRoll list"

definition getPlayerTurnsByRound :: "Database \<Rightarrow> int \<Rightarrow> int \<Rightarrow> SelectPlayerTurn list" where
  "getPlayerTurnsByRound db rid gsid =
     sort_key turnOrder
       (filter (\<lambda>t. turn_gameSessionId t = gsid \<and> roundId t = rid) (playerTurnsTable db))"

definition getRollsByPlayerTurn :: "Database \<Rightarrow> int \<Rightarrow> int \<Rightarrow> SelectRoll list" where
  "getRollsByPlayerTurn db tid gsid =
     sort_key rollNumber
       (filter (\<lambda>r. roll_gameSessionId r = gsid \<and> playerTurnId r = tid) (rollsTable db))"

definition wasPreviousTurnStairs :: "Date \<Rightarrow> Database \<Rightarrow> int \<Rightarrow> int \<Rightarrow> int \<Rightarrow> bool" where
  "wasPreviousTurnStairs now db rid currentTurnOrder gsid =
     (if currentTurnOrder \<le> 1 then False
      else
        (case find (\<lambda>t. turnOrder t = currentTurnOrder - 1) (getPlayerTurnsByRound db rid gsid) of
           None \<Rightarrow> False
         | Some previousTurn \<Rightarrow>
             specialRollType
               (mapPlayerTurn now previousTurn (getRollsByPlayerTurn db (turn_id previousTurn) gsid))
             = stairs))"

definition validateSuperStairs :: "Date \<Rightarrow> Database \<Rightarrow> int \<Rightarrow> int \<Rightarrow> Dice \<Rightarrow> int \<Rightarrow> bool" where
  "validateSuperStairs now db rid currentTurnOrder ds gsid =
     isSuperStairsValid ds (wasPreviousTurnStairs now db rid currentTurnOrder gsid)"


section \<open>Specification-side definitions and sample data\<close>

text \<open>
  The classifier as the specification words it: sort the three faces ascending, then test
  in order: all three equal; \<open>[1,2,3]\<close>; \<open>[4,5,6]\<close>; \<open>[2,3,4]\<close> or \<open>[3,4,5]\<close>; otherwise.
\<close>

definition classify :: "int \<Rightarrow> int \<Rightarrow> int \<Rightarrow> SpecialRollType" where
  "classify a b c =
     (let sorted = sort [a, b, c] in
      if a = b \<and> b = c then three_of_a_kind
      else if sorted = [1, 2, 3] then stairs
      else if sorted = [4, 5, 6] then super_stairs
      else if sorted = [2, 3, 4] \<or> sorted = [3, 4, 5] then shit_stairs
      else none)"

text \<open>A die with the given face, as rolled (not kept).\<close>

definition face :: "int \<Rightarrow> Die" where
  "face v = \<lparr> die_value = v, kept = False \<rparr>"

text \<open>The per-face point values of the specification: 1 is 100, 6 is 60, 2 to 5 count as shown.\<close>

definition facePoints :: "int \<Rightarrow> int" where
  "facePoints f =
     (if f = 1 then 100 else if f = 2 then 2 else if f = 3 then 3
      else if f = 4 then 4 else if f = 5 then 5 else if f = 6 then 60 else 0)"

definition pointTotal :: "Dice \<Rightarrow> int" where
  "pointTotal ds = (\<Sum>d\<leftarrow>ds. facePoints (die_value d))"

text \<open>The data model's invariant on a dice set: exactly three faces, each in 1..6.\<close>

definition validDice :: "Dice \<Rightarrow> bool" where
  "validDice ds = (length ds = 3 \<and> (\<forall>d\<in>set ds. 1 \<le> die_value d \<and> die_value d \<le> 6))"

text \<open>The categories that make a turn safe, as the specification lists them.\<close>

definition safeCategory :: "SpecialRollType \<Rightarrow> bool" where
  "safeCategory c = (c = three_of_a_kind \<or> c = stairs \<or> c = super_stairs)"

text \<open>Sample rows for concrete runs: a roll of turn \<open>tid\<close> and a turn of participant \<open>pid\<close>.\<close>

definition aRoll :: "int \<Rightarrow> int \<Rightarrow> int \<Rightarrow> int \<Rightarrow> int \<Rightarrow> SelectRoll" where
  "aRoll tid n a b c =
     \<lparr> roll_id = 10 * tid + n, roll_gameSessionId = 1, playerTurnId = tid, rollNumber = n,
       dice = [face a, face b, face c], rolledAt = 1000 * tid + n \<rparr>"

definition aTurn :: "int \<Rightarrow> int \<Rightarrow> SelectPlayerTurn" where
  "aTurn tid pid =
     \<lparr> turn_id = tid, turn_gameSessionId = 1, roundId = 1, participantId = pid, turnOrder = tid \<rparr>"

text \<open>Every roll supplied for the turns has at least one die.\<close>

definition oneDiePerRoll :: "SelectPlayerTurn list \<Rightarrow> (int \<rightharpoonup> SelectRoll list) \<Rightarrow> bool" where
  "oneDiePerRoll ts rollsByTurnId =
     (\<forall>t\<in>set ts. \<forall>r\<in>set (getOrEmpty rollsByTurnId (turn_id t)). dice r \<noteq> [])"

text \<open>Every roll supplied for the turns is a valid dice set.\<close>

definition validRolls :: "SelectPlayerTurn list \<Rightarrow> (int \<rightharpoonup> SelectRoll list) \<Rightarrow> bool" where
  "validRolls ts rollsByTurnId =
     (\<forall>t\<in>set ts. \<forall>r\<in>set (getOrEmpty rollsByTurnId (turn_id t)). validDice (dice r))"

text \<open>The turn models that \<open>mapRound\<close> builds from its inputs.\<close>

definition turnModels :: "Date \<Rightarrow> SelectPlayerTurn list \<Rightarrow> (int \<rightharpoonup> SelectRoll list) \<Rightarrow> PlayerTurnModel list" where
  "turnModels now ts rollsByTurnId =
     map (\<lambda>turn. mapPlayerTurn now turn (getOrEmpty rollsByTurnId (turn_id turn))) ts"

text \<open>What one pass of the penalty loop adds for a turn: the sips of the first die of its last roll.\<close>

definition firstDieSips :: "PlayerTurnModel \<Rightarrow> int" where
  "firstDieSips t =
     (if specialRollType t = three_of_a_kind
      then getThreeOfAKindSips (die_value (hd (dice (last (rolls t))))) else 0)"

text \<open>
  The three-of-a-kind bonus as the specification words it: face 1 adds 7, face 6 adds 6, a face
  \<open>n\<close> in 2..5 adds \<open>n\<close>; the repeated face of a roll; the bonus of a turn.
\<close>

definition faceBonus :: "int \<Rightarrow> int" where
  "faceBonus f = (if f = 1 then 7 else if f = 6 then 6 else if 2 \<le> f \<and> f \<le> 5 then f else 0)"

definition repeatedFace :: "Dice \<Rightarrow> int" where
  "repeatedFace ds = Min (set (map die_value ds))"

definition turnBonus :: "PlayerTurnModel \<Rightarrow> int" where
  "turnBonus t =
     (if specialRollType t = three_of_a_kind
      then faceBonus (repeatedFace (dice (last (rolls t)))) else 0)"

text \<open>
  The round of the specification's end-to-end scenario: A unsafe with 203, B three of a kind on
  face 3, C stairs, D unsafe with 67.
\<close>

definition aRound :: SelectRound where
  "aRound = \<lparr> round_id = 1, round_gameSessionId = 1, roundNumber = 1,
              playerOrder = [11, 12, 13, 14], startedAt = 0 \<rparr>"

definition fourTurns :: "SelectPlayerTurn list" where
  "fourTurns = [aTurn 1 11, aTurn 2 12, aTurn 3 13, aTurn 4 14]"

definition fourRolls :: "int \<rightharpoonup> SelectRoll list" where
  "fourRolls = [1 \<mapsto> [aRoll 1 1 1 1 3], 2 \<mapsto> [aRoll 2 1 3 3 3],
                3 \<mapsto> [aRoll 3 1 2 1 3], 4 \<mapsto> [aRoll 4 1 6 5 2]]"

text \<open>A round with a tie: 10, then 7, then stairs, then 7 again.\<close>

definition tieRolls :: "int \<rightharpoonup> SelectRoll list" where
  "tieRolls = [1 \<mapsto> [aRoll 1 1 2 3 5], 2 \<mapsto> [aRoll 2 1 2 2 3],
               3 \<mapsto> [aRoll 3 1 1 2 3], 4 \<mapsto> [aRoll 4 1 3 2 2]]"

text \<open>A round in which the third turn has no roll yet.\<close>

definition noRollsYet :: "int \<rightharpoonup> SelectRoll list" where
  "noRollsYet = [1 \<mapsto> [aRoll 1 1 1 1 3], 2 \<mapsto> [aRoll 2 1 2 2 3], 3 \<mapsto> []]"

definition threeTurns :: "SelectPlayerTurn list" where
  "threeTurns = [aTurn 1 11, aTurn 2 12, aTurn 3 13]"

text \<open>
  A database with two turns of round 1, stored out of order: turn 1 rolled \<open>[2,2,5]\<close> and then
  \<open>[3,1,2]\<close>, turn 2 rolled \<open>[4,5,6]\<close>.
\<close>

definition aDatabase :: Database where
  "aDatabase =
     \<lparr> playerTurnsTable = [aTurn 2 12, aTurn 1 11],
       rollsTable = [aRoll 1 2 3 1 2, aRoll 1 1 2 2 5, aRoll 2 1 4 5 6] \<rparr>"





section \<open>The roll classifier\<close>

lemma sort_values_cong:
  assumes "mset (map die_value ds') = mset (map die_value ds)"
  shows "sort (map die_value ds') = sort (map die_value ds)"
  using assms by (intro properties_for_sort) simp_all

text \<open>
  C3: on every dice set of three faces, \<open>detectSpecialRoll\<close> returns the category that the
  specification's procedure gives: sort ascending, then all equal, \<open>[1,2,3]\<close>, \<open>[4,5,6]\<close>
  (pattern only), \<open>[2,3,4]\<close> or \<open>[3,4,5]\<close>, otherwise none. The faces need not even lie in
  1..6 for this.
\<close>

theorem detectSpecialRoll_classify:
  "detectSpecialRoll [d1, d2, d3] = classify (die_value d1) (die_value d2) (die_value d3)"
  by (auto simp: detectSpecialRoll_def classify_def idx_def Let_def)

theorem detectSpecialRoll_classify_witness:
  "detectSpecialRoll [face 3, face 1, face 2] = stairs \<and> classify 3 1 2 = stairs"
  using detectSpecialRoll_classify [of "face 3" "face 1" "face 2"]
  by (simp add: face_def classify_def)

text \<open>
  C8: the category does not depend on the order of the dice: two dice sets with the same
  faces up to reordering are classified alike.
\<close>

theorem detectSpecialRoll_permutation:
  assumes "mset (map die_value ds') = mset (map die_value ds)"
  shows "detectSpecialRoll ds' = detectSpecialRoll ds"
proof -
  from assms have "sort (map die_value ds') = sort (map die_value ds)"
    by (rule sort_values_cong)
  then show ?thesis
    by (simp add: detectSpecialRoll_def)
qed

theorem detectSpecialRoll_permutation_witness:
  "mset (map die_value [face 3, face 1, face 2]) = mset (map die_value [face 1, face 2, face 3])
   \<and> detectSpecialRoll [face 3, face 1, face 2] = stairs
   \<and> detectSpecialRoll [face 1, face 2, face 3] = stairs"
  using detectSpecialRoll_permutation [of "[face 3, face 1, face 2]" "[face 1, face 2, face 3]"]
  by (simp add: face_def detectSpecialRoll_def idx_def)

section \<open>Scoring\<close>

lemma DICE_POINTS_face:
  assumes "1 \<le> v" "v \<le> 6"
  shows "DICE_POINTS v = Some (facePoints v)" and "0 < facePoints v"
proof -
  from assms have "v = 1 \<or> v = 2 \<or> v = 3 \<or> v = 4 \<or> v = 5 \<or> v = 6" by arith
  then show "DICE_POINTS v = Some (facePoints v)" and "0 < facePoints v"
    by (auto simp: DICE_POINTS_def facePoints_def)
qed

lemma foldl_addPoints:
  assumes "\<forall>d\<in>set ds. 1 \<le> die_value d \<and> die_value d \<le> 6"
  shows "foldl (\<lambda>sum d. addPoints sum (DICE_POINTS (die_value d))) (Num s) ds
         = Num (s + pointTotal ds)"
  using assms
proof (induction ds arbitrary: s)
  case Nil
  then show ?case by (simp add: pointTotal_def)
next
  case (Cons d ds)
  then have "DICE_POINTS (die_value d) = Some (facePoints (die_value d))"
    by (simp add: DICE_POINTS_face)
  with Cons show ?case
    by (simp add: pointTotal_def add.assoc)
qed

lemma calculateScore_valid:
  assumes "validDice ds"
  shows "calculateScore ds = Num (pointTotal ds)"
  using assms foldl_addPoints [of ds 0] by (simp add: calculateScore_def validDice_def)

lemma pointTotal_pos:
  assumes "validDice ds"
  shows "0 < pointTotal ds"
proof -
  from assms obtain a b c where ds: "ds = [a, b, c]"
    by (auto simp: validDice_def length_Suc_conv numeral_3_eq_3)
  with assms have "0 < facePoints (die_value a)" "0 < facePoints (die_value b)"
    "0 < facePoints (die_value c)"
    by (simp_all add: validDice_def DICE_POINTS_face)
  with ds show ?thesis by (simp add: pointTotal_def)
qed

lemma mapPlayerTurn_nonempty:
  assumes "rs \<noteq> []"
  shows "specialRollType (mapPlayerTurn now turn rs) = detectSpecialRoll (dice (last rs))"
    and "isSafe (mapPlayerTurn now turn rs) = isSafeRoll (detectSpecialRoll (dice (last rs)))"
    and "finalScore (mapPlayerTurn now turn rs) =
           (if isSafeRoll (detectSpecialRoll (dice (last rs))) then None
            else Some (scoreOrZero (calculateScore (dice (last rs)))))"
    and "completedAt (mapPlayerTurn now turn rs) = rolledAt (last rs)"
  using assms by (simp_all add: mapPlayerTurn_def lastElem_def Let_def last_map mapRoll_def)

lemma mapPlayerTurn_empty:
  "specialRollType (mapPlayerTurn now turn []) = none"
  "isSafe (mapPlayerTurn now turn []) = False"
  "finalScore (mapPlayerTurn now turn []) = Some 0"
  "totalRollsUsed (mapPlayerTurn now turn []) = 0"
  "completedAt (mapPlayerTurn now turn []) = now"
  by (simp_all add: mapPlayerTurn_def lastElem_def Let_def isSafeRoll_def)

lemma mapPlayerTurn_keeps:
  "participantId (mapPlayerTurn now turn rs) = participantId turn"
  "rolls (mapPlayerTurn now turn rs) = map mapRoll rs"
  "turn_id (mapPlayerTurn now turn rs) = turn_id turn"
  by (simp_all add: mapPlayerTurn_def Let_def)

lemma isSafeRoll_safeCategory: "isSafeRoll c = safeCategory c"
  by (cases c) (simp_all add: isSafeRoll_def safeCategory_def)

section \<open>The turn reducer\<close>

text \<open>
  C2: for a turn with at least one roll, the turn is safe exactly when the category of its
  last roll is three of a kind, stairs or super stairs (shit stairs and none are unsafe);
  an unsafe turn whose last roll is a valid dice set has the point total of that roll as
  its final score; a safe turn has the final score \<open>null\<close>.
\<close>

theorem mapPlayerTurn_safe_score:
  assumes "rs \<noteq> []"
  shows "isSafe (mapPlayerTurn now turn rs) = safeCategory (detectSpecialRoll (dice (last rs)))
       \<and> \<not> safeCategory shit_stairs \<and> \<not> safeCategory none
       \<and> (\<not> isSafe (mapPlayerTurn now turn rs) \<and> validDice (dice (last rs))
            \<longrightarrow> finalScore (mapPlayerTurn now turn rs) = Some (pointTotal (dice (last rs))))
       \<and> (isSafe (mapPlayerTurn now turn rs) \<longrightarrow> finalScore (mapPlayerTurn now turn rs) = None)"
proof -
  have safe: "isSafe (mapPlayerTurn now turn rs) = safeCategory (detectSpecialRoll (dice (last rs)))"
    using assms by (simp add: mapPlayerTurn_nonempty isSafeRoll_safeCategory)
  have unsafe: "finalScore (mapPlayerTurn now turn rs) = Some (pointTotal (dice (last rs)))"
    if "\<not> isSafe (mapPlayerTurn now turn rs)" "validDice (dice (last rs))"
  proof -
    from that(2) have "scoreOrZero (calculateScore (dice (last rs))) = pointTotal (dice (last rs))"
      by (simp add: calculateScore_valid scoreOrZero_def)
    with that(1) assms show ?thesis
      by (simp add: mapPlayerTurn_nonempty)
  qed
  have null: "finalScore (mapPlayerTurn now turn rs) = None"
    if "isSafe (mapPlayerTurn now turn rs)"
    using that assms by (simp add: mapPlayerTurn_nonempty)
  from safe unsafe null show ?thesis
    by (simp add: safeCategory_def)
qed

theorem mapPlayerTurn_safe_score_witness:
  "[aRoll 1 1 1 2 3, aRoll 1 2 2 3 5] \<noteq> []
   \<and> isSafe (mapPlayerTurn 0 (aTurn 1 7) [aRoll 1 1 1 2 3, aRoll 1 2 2 3 5]) = False
   \<and> validDice (dice (last [aRoll 1 1 1 2 3, aRoll 1 2 2 3 5]))
   \<and> finalScore (mapPlayerTurn 0 (aTurn 1 7) [aRoll 1 1 1 2 3, aRoll 1 2 2 3 5]) = Some 10"
  using mapPlayerTurn_safe_score [of "[aRoll 1 1 1 2 3, aRoll 1 2 2 3 5]" 0 "aTurn 1 7"]
  by (simp add: aRoll_def face_def validDice_def pointTotal_def facePoints_def safeCategory_def
      detectSpecialRoll_def idx_def)

section \<open>The round reducer: loser and penalty\<close>

lemma scoreLess_irrefl: "\<not> scoreLess a a"
  by (cases a) simp_all

lemma scoreLess_trans: "scoreLess a b \<Longrightarrow> scoreLess b c \<Longrightarrow> scoreLess a c"
  by (cases a; cases b; cases c) simp_all

lemma scoreLess_trans_le: "scoreLess a b \<Longrightarrow> \<not> scoreLess c b \<Longrightarrow> scoreLess a c"
  by (cases a; cases b; cases c) simp_all

lemma scoreLess_asym: "scoreLess a b \<Longrightarrow> \<not> scoreLess b a"
  by (cases a; cases b) simp_all

text \<open>The reduce returns the earliest element that no other element beats.\<close>

lemma foldl_lowerTurn:
  "\<exists>pre post. first # rest = pre @ foldl lowerTurn first rest # post
     \<and> (\<forall>t\<in>set pre. scoreLess (finalScore (foldl lowerTurn first rest)) (finalScore t))
     \<and> (\<forall>t\<in>set post. \<not> scoreLess (finalScore t) (finalScore (foldl lowerTurn first rest)))"
proof (induction rest rule: rev_induct)
  case Nil
  have "[first] = [] @ first # []" by simp
  then show ?case by force
next
  case (snoc x rest)
  let ?w = "foldl lowerTurn first rest"
  from snoc obtain pre post where dec: "first # rest = pre @ ?w # post"
    and pre: "\<forall>t\<in>set pre. scoreLess (finalScore ?w) (finalScore t)"
    and post: "\<forall>t\<in>set post. \<not> scoreLess (finalScore t) (finalScore ?w)"
    by blast
  show ?case
  proof (cases "scoreLess (finalScore x) (finalScore ?w)")
    case True
    then have res: "foldl lowerTurn first (rest @ [x]) = x"
      by (simp add: lowerTurn_def)
    have d: "first # rest @ [x] = (pre @ ?w # post) @ x # []"
      using dec by simp
    have "\<forall>t\<in>set (pre @ ?w # post). scoreLess (finalScore x) (finalScore t)"
      using True pre post by (auto intro: scoreLess_trans scoreLess_trans_le)
    with d res show ?thesis
      by (metis empty_iff empty_set)
  next
    case False
    then have res: "foldl lowerTurn first (rest @ [x]) = ?w"
      by (simp add: lowerTurn_def)
    have d: "first # rest @ [x] = pre @ ?w # (post @ [x])"
      using dec by simp
    have "\<forall>t\<in>set (post @ [x]). \<not> scoreLess (finalScore t) (finalScore ?w)"
      using False post by auto
    with d res pre show ?thesis
      by metis
  qed
qed

lemma filter_eq_decompose:
  assumes "filter P xs = pre' @ w # post'"
  shows "\<exists>pre post. xs = pre @ w # post \<and> filter P pre = pre' \<and> filter P post = post' \<and> P w"
  using assms
proof (induction xs arbitrary: pre')
  case Nil
  then show ?case by simp
next
  case (Cons x xs)
  show ?case
  proof (cases "P x")
    case False
    with Cons.prems have "filter P xs = pre' @ w # post'" by simp
    from Cons.IH [OF this] obtain pre post where
      "xs = pre @ w # post" "filter P pre = pre'" "filter P post = post'" "P w"
      by blast
    with False have "x # xs = (x # pre) @ w # post \<and> filter P (x # pre) = pre'
        \<and> filter P post = post' \<and> P w"
      by simp
    then show ?thesis by blast
  next
    case True
    with Cons.prems have eq: "x # filter P xs = pre' @ w # post'" by simp
    show ?thesis
    proof (cases pre')
      case Nil
      with eq have "x = w" "filter P xs = post'" by simp_all
      with True have "x # xs = [] @ w # xs \<and> filter P [] = pre' \<and> filter P xs = post' \<and> P w"
        using Nil by simp
      then show ?thesis by blast
    next
      case (Cons y ys)
      with eq have "x = y" "filter P xs = ys @ w # post'" by simp_all
      from Cons.IH [OF this(2)] obtain pre post where
        "xs = pre @ w # post" "filter P pre = ys" "filter P post = post'" "P w"
        by blast
      with True \<open>x = y\<close> Cons have "x # xs = (x # pre) @ w # post \<and> filter P (x # pre) = pre'
          \<and> filter P post = post' \<and> P w"
        by simp
      then show ?thesis by blast
    qed
  qed
qed

lemma findLoserFromTurns_none:
  "findLoserFromTurns ts = None \<longleftrightarrow> (\<forall>t\<in>set ts. isSafe t)"
proof (cases "filter (\<lambda>t. \<not> isSafe t) ts")
  case Nil
  then show ?thesis
    by (simp add: findLoserFromTurns_def filter_empty_conv)
next
  case (Cons x xs)
  then have "x \<in> set (filter (\<lambda>t. \<not> isSafe t) ts)" by simp
  then have "\<exists>t\<in>set ts. \<not> isSafe t" by auto
  with Cons show ?thesis
    by (simp add: findLoserFromTurns_def)
qed

text \<open>The loser is the earliest unsafe turn that no other unsafe turn beats.\<close>

lemma findLoserFromTurns_earliest:
  assumes "\<exists>t\<in>set ts. \<not> isSafe t"
  shows "\<exists>pre w post. ts = pre @ w # post \<and> \<not> isSafe w
           \<and> findLoserFromTurns ts = Some (participantId w)
           \<and> (\<forall>t\<in>set pre. \<not> isSafe t \<longrightarrow> scoreLess (finalScore w) (finalScore t))
           \<and> (\<forall>t\<in>set post. \<not> isSafe t \<longrightarrow> \<not> scoreLess (finalScore t) (finalScore w))"
proof -
  from assms obtain first rest where unsafe: "filter (\<lambda>t. \<not> isSafe t) ts = first # rest"
    by (cases "filter (\<lambda>t. \<not> isSafe t) ts") (auto simp: filter_empty_conv)
  define w where "w = foldl lowerTurn first rest"
  from foldl_lowerTurn [of first rest] obtain pre' post' where
    dec: "first # rest = pre' @ w # post'"
    and pre': "\<forall>t\<in>set pre'. scoreLess (finalScore w) (finalScore t)"
    and post': "\<forall>t\<in>set post'. \<not> scoreLess (finalScore t) (finalScore w)"
    unfolding w_def by blast
  from unsafe dec have "filter (\<lambda>t. \<not> isSafe t) ts = pre' @ w # post'" by simp
  from filter_eq_decompose [OF this] obtain pre post where
    ts: "ts = pre @ w # post" and fpre: "filter (\<lambda>t. \<not> isSafe t) pre = pre'"
    and fpost: "filter (\<lambda>t. \<not> isSafe t) post = post'" and w: "\<not> isSafe w"
    by blast
  have res: "findLoserFromTurns ts = Some (participantId w)"
    using unsafe by (simp add: findLoserFromTurns_def w_def)
  have "\<forall>t\<in>set pre. \<not> isSafe t \<longrightarrow> scoreLess (finalScore w) (finalScore t)"
    using pre' fpre by auto
  moreover have "\<forall>t\<in>set post. \<not> isSafe t \<longrightarrow> \<not> scoreLess (finalScore t) (finalScore w)"
    using post' fpost by auto
  ultimately show ?thesis
    using ts w res by blast
qed

lemma penaltyLoop_total:
  assumes "\<forall>t\<in>set tms. specialRollType t = three_of_a_kind
             \<longrightarrow> rolls t \<noteq> [] \<and> dice (last (rolls t)) \<noteq> []"
  shows "penaltyLoop p tms = Inr (p + (\<Sum>t\<leftarrow>tms. firstDieSips t))"
  using assms
proof (induction tms arbitrary: p)
  case Nil
  then show ?case by simp
next
  case (Cons t tms)
  then have IH: "\<And>q. penaltyLoop q tms = Inr (q + (\<Sum>t\<leftarrow>tms. firstDieSips t))"
    by simp
  show ?case
  proof (cases "specialRollType t = three_of_a_kind")
    case False
    then show ?thesis by (simp add: IH firstDieSips_def)
  next
    case True
    with Cons.prems have "rolls t \<noteq> []" "dice (last (rolls t)) \<noteq> []" by simp_all
    then have "lastElem (rolls t) = Some (last (rolls t))"
      and "idx (dice (last (rolls t))) 0 = Some (hd (dice (last (rolls t))))"
      by (simp_all add: lastElem_def idx_def hd_conv_nth)
    with True show ?thesis
      by (simp add: IH firstDieSips_def add.assoc)
  qed
qed

lemma mapPlayerTurn_toak_rolls:
  assumes "specialRollType (mapPlayerTurn now turn rs) = three_of_a_kind"
  shows "rs \<noteq> []" and "dice (last (rolls (mapPlayerTurn now turn rs))) = dice (last rs)"
    and "detectSpecialRoll (dice (last rs)) = three_of_a_kind"
proof -
  show ne: "rs \<noteq> []"
    using assms by (auto simp: mapPlayerTurn_empty)
  then show "dice (last (rolls (mapPlayerTurn now turn rs))) = dice (last rs)"
    by (simp add: mapPlayerTurn_keeps last_map mapRoll_def)
  from ne assms show "detectSpecialRoll (dice (last rs)) = three_of_a_kind"
    by (simp add: mapPlayerTurn_nonempty)
qed

lemma turnModels_penalty:
  assumes "oneDiePerRoll ts rollsByTurnId"
  shows "calculatePenaltyFromTurns (turnModels now ts rollsByTurnId)
         = Inr (1 + (\<Sum>t\<leftarrow>turnModels now ts rollsByTurnId. firstDieSips t))"
  unfolding calculatePenaltyFromTurns_def
proof (rule penaltyLoop_total, intro ballI impI)
  fix tm
  assume tm: "tm \<in> set (turnModels now ts rollsByTurnId)"
    and toak: "specialRollType tm = three_of_a_kind"
  from tm obtain t where t: "t \<in> set ts"
    and tm_eq: "tm = mapPlayerTurn now t (getOrEmpty rollsByTurnId (turn_id t))"
    by (auto simp: turnModels_def)
  let ?rs = "getOrEmpty rollsByTurnId (turn_id t)"
  from toak tm_eq have ne: "?rs \<noteq> []" and d: "dice (last (rolls tm)) = dice (last ?rs)"
    by (simp_all add: mapPlayerTurn_toak_rolls)
  from ne have "last ?rs \<in> set ?rs" by simp
  with assms t have "dice (last ?rs) \<noteq> []"
    by (simp add: oneDiePerRoll_def)
  with ne d tm_eq show "rolls tm \<noteq> [] \<and> dice (last (rolls tm)) \<noteq> []"
    by (simp add: mapPlayerTurn_keeps)
qed

lemma mapRound_returns:
  assumes "oneDiePerRoll ts rollsByTurnId"
  shows "\<exists>m. mapRound now round ts rollsByTurnId = Inr m
           \<and> turns m = turnModels now ts rollsByTurnId
           \<and> currentPenaltySips m = 1 + (\<Sum>t\<leftarrow>turnModels now ts rollsByTurnId. firstDieSips t)
           \<and> finalPenaltySips m =
               (if length ts = length (playerOrder round) then Some (currentPenaltySips m) else None)
           \<and> losingParticipantId m =
               (if length ts = length (playerOrder round)
                then findLoserFromTurns (turnModels now ts rollsByTurnId) else None)"
  using turnModels_penalty [OF assms, of now]
  by (simp add: mapRound_def turnModels_def Let_def isRoundCompleteFromData_def)

lemma validDice_nonempty: "validDice ds \<Longrightarrow> ds \<noteq> []"
  by (auto simp: validDice_def)

lemma validRolls_oneDie: "validRolls ts m \<Longrightarrow> oneDiePerRoll ts m"
  by (simp add: validRolls_def oneDiePerRoll_def validDice_nonempty)

text \<open>
  C9: when some turn is unsafe, \<open>findLoserFromTurns\<close> returns the participant of the earliest
  turn, in list order, among the unsafe turns of minimum final score (a \<open>null\<close> score counting
  as plus infinity, as the comparison does): no unsafe turn has a smaller score, and every
  unsafe turn before it has a strictly larger one. With the turns in ascending \<open>turnOrder\<close>, a
  tie goes to the lowest \<open>turnOrder\<close>.
\<close>

theorem findLoserFromTurns_tie_break:
  assumes "\<exists>t\<in>set ts. \<not> isSafe t"
  shows "\<exists>i<length ts. \<not> isSafe (ts ! i)
           \<and> findLoserFromTurns ts = Some (participantId (ts ! i))
           \<and> (\<forall>j<length ts. \<not> isSafe (ts ! j)
                  \<longrightarrow> \<not> scoreLess (finalScore (ts ! j)) (finalScore (ts ! i)))
           \<and> (\<forall>j<i. \<not> isSafe (ts ! j)
                  \<longrightarrow> scoreLess (finalScore (ts ! i)) (finalScore (ts ! j)))
           \<and> (sorted (map turnOrder ts) \<longrightarrow>
                (\<forall>j<length ts. \<not> isSafe (ts ! j) \<and> finalScore (ts ! j) = finalScore (ts ! i)
                   \<longrightarrow> turnOrder (ts ! i) \<le> turnOrder (ts ! j)))"
proof -
  from findLoserFromTurns_earliest [OF assms] obtain pre w post where
    ts: "ts = pre @ w # post" and w: "\<not> isSafe w"
    and res: "findLoserFromTurns ts = Some (participantId w)"
    and pre: "\<forall>t\<in>set pre. \<not> isSafe t \<longrightarrow> scoreLess (finalScore w) (finalScore t)"
    and post: "\<forall>t\<in>set post. \<not> isSafe t \<longrightarrow> \<not> scoreLess (finalScore t) (finalScore w)"
    by blast
  define i where "i = length pre"
  have i: "i < length ts" and at_i: "ts ! i = w"
    using ts by (simp_all add: i_def)
  have before: "scoreLess (finalScore w) (finalScore (ts ! j))" if "j < i" "\<not> isSafe (ts ! j)" for j
  proof -
    from that(1) have "ts ! j = pre ! j" "pre ! j \<in> set pre"
      using ts by (simp_all add: i_def nth_append)
    with pre that(2) show ?thesis by simp
  qed
  have all: "\<not> scoreLess (finalScore (ts ! j)) (finalScore w)"
    if "j < length ts" "\<not> isSafe (ts ! j)" for j
  proof -
    consider "j < i" | "j = i" | "i < j" by arith
    then show ?thesis
    proof cases
      case 1
      with that(2) show ?thesis by (simp add: before scoreLess_asym)
    next
      case 2
      with at_i show ?thesis by (simp add: scoreLess_irrefl)
    next
      case 3
      then have "ts ! j = post ! (j - i - 1)"
        using ts by (simp add: i_def nth_append)
      moreover from 3 that(1) have "j - i - 1 < length post"
        using ts by (simp add: i_def)
      ultimately have "ts ! j \<in> set post" by simp
      with post that(2) show ?thesis by simp
    qed
  qed
  have ties: "turnOrder (ts ! i) \<le> turnOrder (ts ! j)"
    if "sorted (map turnOrder ts)" "j < length ts" "\<not> isSafe (ts ! j)"
      "finalScore (ts ! j) = finalScore (ts ! i)" for j
  proof -
    have "\<not> j < i"
    proof
      assume "j < i"
      with that(3) have "scoreLess (finalScore w) (finalScore (ts ! j))" by (simp add: before)
      with that(4) at_i show False by (simp add: scoreLess_irrefl)
    qed
    then have "i \<le> j" by simp
    with that(1,2) have "map turnOrder ts ! i \<le> map turnOrder ts ! j"
      by (simp add: sorted_nth_mono del: nth_map)
    with i that(2) show ?thesis by simp
  qed
  from i at_i w res before all ties show ?thesis
    by (intro exI [of _ i]) simp
qed

lemma mapPlayerTurn_unsafe_score:
  assumes "\<not> isSafe (mapPlayerTurn now turn rs)"
  shows "\<exists>s. finalScore (mapPlayerTurn now turn rs) = Some s"
  using assms by (simp add: mapPlayerTurn_def Let_def)

lemma findLoserFromTurns_min:
  assumes unsafe: "\<exists>t\<in>set ts. \<not> isSafe t"
    and scored: "\<forall>t\<in>set ts. \<not> isSafe t \<longrightarrow> finalScore t \<noteq> None"
  shows "\<exists>w\<in>set ts. \<not> isSafe w \<and> findLoserFromTurns ts = Some (participantId w)
           \<and> (\<exists>s. finalScore w = Some s
                \<and> (\<forall>t\<in>set ts. \<not> isSafe t \<longrightarrow> (\<exists>s'. finalScore t = Some s' \<and> s \<le> s')))"
proof -
  from findLoserFromTurns_earliest [OF unsafe] obtain pre w post where
    ts: "ts = pre @ w # post" and w: "\<not> isSafe w"
    and res: "findLoserFromTurns ts = Some (participantId w)"
    and pre: "\<forall>t\<in>set pre. \<not> isSafe t \<longrightarrow> scoreLess (finalScore w) (finalScore t)"
    and post: "\<forall>t\<in>set post. \<not> isSafe t \<longrightarrow> \<not> scoreLess (finalScore t) (finalScore w)"
    by blast
  from ts have w_in: "w \<in> set ts" by simp
  with scored w obtain s where s: "finalScore w = Some s" by auto
  have "\<exists>s'. finalScore t = Some s' \<and> s \<le> s'" if "t \<in> set ts" "\<not> isSafe t" for t
  proof -
    from scored that obtain s' where s': "finalScore t = Some s'" by auto
    from that(1) ts consider "t \<in> set pre" | "t = w" | "t \<in> set post" by auto
    then have "s \<le> s'"
    proof cases
      case 1
      with pre that(2) s s' show ?thesis by auto
    next
      case 2
      with s s' show ?thesis by simp
    next
      case 3
      with post that(2) s s' show ?thesis by auto
    qed
    with s' show ?thesis by simp
  qed
  with w_in w res s show ?thesis by blast
qed

lemma turnModels_unsafe_scored:
  "\<forall>t\<in>set (turnModels now ts rollsByTurnId). \<not> isSafe t \<longrightarrow> finalScore t \<noteq> None"
  using mapPlayerTurn_unsafe_score by (fastforce simp: turnModels_def)

text \<open>
  C1: \<open>mapRound\<close> returns a round model whenever no roll has an empty dice array, and the
  turns of that model are the models of the turns supplied, in their order. If the turn count
  differs from the length of the player order, \<open>losingParticipantId\<close> is \<open>null\<close>. If they are
  equal, it is \<open>null\<close> when every turn is safe, and otherwise the participant of an unsafe
  turn whose final score is minimal among the unsafe turns.
\<close>

theorem mapRound_loser:
  assumes "oneDiePerRoll ts rollsByTurnId"
  shows "\<exists>m. mapRound now round ts rollsByTurnId = Inr m
           \<and> turns m = turnModels now ts rollsByTurnId
           \<and> (length ts \<noteq> length (playerOrder round) \<longrightarrow> losingParticipantId m = None)
           \<and> (length ts = length (playerOrder round) \<longrightarrow>
                (if \<forall>t\<in>set (turns m). isSafe t then losingParticipantId m = None
                 else \<exists>w\<in>set (turns m). \<not> isSafe w
                        \<and> losingParticipantId m = Some (participantId w)
                        \<and> (\<exists>s. finalScore w = Some s
                             \<and> (\<forall>t\<in>set (turns m). \<not> isSafe t
                                    \<longrightarrow> (\<exists>s'. finalScore t = Some s' \<and> s \<le> s')))))"
proof -
  let ?tms = "turnModels now ts rollsByTurnId"
  from mapRound_returns [OF assms, of now round] obtain m where
    m: "mapRound now round ts rollsByTurnId = Inr m" and tms: "turns m = ?tms"
    and loser: "losingParticipantId m =
      (if length ts = length (playerOrder round) then findLoserFromTurns ?tms else None)"
    by blast
  have incomplete: "losingParticipantId m = None" if "length ts \<noteq> length (playerOrder round)"
    using that loser by simp
  have complete:
    "if \<forall>t\<in>set (turns m). isSafe t then losingParticipantId m = None
     else \<exists>w\<in>set (turns m). \<not> isSafe w \<and> losingParticipantId m = Some (participantId w)
            \<and> (\<exists>s. finalScore w = Some s
                 \<and> (\<forall>t\<in>set (turns m). \<not> isSafe t \<longrightarrow> (\<exists>s'. finalScore t = Some s' \<and> s \<le> s')))"
    if c: "length ts = length (playerOrder round)"
  proof (cases "\<forall>t\<in>set ?tms. isSafe t")
    case True
    then have "findLoserFromTurns ?tms = None"
      by (simp add: findLoserFromTurns_none)
    with True c loser tms show ?thesis by simp
  next
    case False
    then have "\<exists>t\<in>set ?tms. \<not> isSafe t" by simp
    from findLoserFromTurns_min [OF this turnModels_unsafe_scored]
    show ?thesis
      using False c loser tms by auto
  qed
  from m tms incomplete complete show ?thesis by blast
qed

lemma oneDie_four: "oneDiePerRoll fourTurns fourRolls"
  by (simp add: oneDiePerRoll_def fourTurns_def fourRolls_def getOrEmpty_def aTurn_def aRoll_def)

lemma valid_four: "validRolls fourTurns fourRolls"
  by (simp add: validRolls_def fourTurns_def fourRolls_def getOrEmpty_def aTurn_def aRoll_def validDice_def face_def)

lemmas run_defs =
  mapRound_def aRound_def fourTurns_def fourRolls_def getOrEmpty_def aTurn_def aRoll_def face_def
  mapPlayerTurn_def mapRoll_def Let_def lastElem_def idx_def detectSpecialRoll_def isSafeRoll_def
  calculateScore_def DICE_POINTS_def scoreOrZero_def isRoundCompleteFromData_def
  calculatePenaltyFromTurns_def getThreeOfAKindSips_def findLoserFromTurns_def lowerTurn_def

theorem mapRound_loser_witness:
  "oneDiePerRoll fourTurns fourRolls
   \<and> (\<exists>m. mapRound 0 aRound fourTurns fourRolls = Inr m
          \<and> map participantId (turns m) = [11, 12, 13, 14]
          \<and> map finalScore (turns m) = [Some 203, None, None, Some 67]
          \<and> losingParticipantId m = Some 14)"
proof -
  let ?tms = "turnModels 0 fourTurns fourRolls"
  from mapRound_loser [OF oneDie_four, of 0 aRound] obtain m where
    m: "mapRound 0 aRound fourTurns fourRolls = Inr m"
    and tms: "turns m = ?tms"
    and complete: "length fourTurns = length (playerOrder aRound) \<longrightarrow>
      (if \<forall>t\<in>set (turns m). isSafe t then losingParticipantId m = None
       else \<exists>w\<in>set (turns m). \<not> isSafe w \<and> losingParticipantId m = Some (participantId w)
              \<and> (\<exists>s. finalScore w = Some s
                   \<and> (\<forall>t\<in>set (turns m). \<not> isSafe t
                          \<longrightarrow> (\<exists>s'. finalScore t = Some s' \<and> s \<le> s'))))"
    by blast
  have who: "map participantId ?tms = [11, 12, 13, 14]"
    and scores: "map finalScore ?tms = [Some 203, None, None, Some 67]"
    and safe: "map isSafe ?tms = [False, True, True, False]"
    by (simp_all add: turnModels_def run_defs)
  have len: "length ?tms = 4"
    by (simp add: turnModels_def fourTurns_def)
  have at: "participantId (?tms ! i) = map participantId ?tms ! i"
    "finalScore (?tms ! i) = map finalScore ?tms ! i"
    "isSafe (?tms ! i) = map isSafe ?tms ! i" if "i < 4" for i
    using that len by simp_all
  have first: "?tms ! 0 \<in> set ?tms" and last: "?tms ! 3 \<in> set ?tms"
    using len by simp_all
  have "\<not> isSafe (?tms ! 0)"
    by (simp add: at safe)
  with first have notall: "\<not> (\<forall>t\<in>set (turns m). isSafe t)"
    using tms by auto
  have "length fourTurns = length (playerOrder aRound)"
    by (simp add: fourTurns_def aRound_def)
  with complete have
    "if \<forall>t\<in>set (turns m). isSafe t then losingParticipantId m = None
     else \<exists>w\<in>set (turns m). \<not> isSafe w \<and> losingParticipantId m = Some (participantId w)
            \<and> (\<exists>s. finalScore w = Some s
                 \<and> (\<forall>t\<in>set (turns m). \<not> isSafe t
                        \<longrightarrow> (\<exists>s'. finalScore t = Some s' \<and> s \<le> s')))"
    by blast
  with notall have
    "\<exists>w\<in>set (turns m). \<not> isSafe w \<and> losingParticipantId m = Some (participantId w)
            \<and> (\<exists>s. finalScore w = Some s
                 \<and> (\<forall>t\<in>set (turns m). \<not> isSafe t
                        \<longrightarrow> (\<exists>s'. finalScore t = Some s' \<and> s \<le> s')))"
    by (simp only: if_not_P if_False)
  then obtain w s where w: "w \<in> set ?tms" "\<not> isSafe w"
    and res: "losingParticipantId m = Some (participantId w)"
    and s: "finalScore w = Some s"
    and least: "\<forall>t\<in>set ?tms. \<not> isSafe t \<longrightarrow> (\<exists>s'. finalScore t = Some s' \<and> s \<le> s')"
    unfolding tms by blast
  from w(1) obtain i where i: "i < 4" "w = ?tms ! i"
    using len by (auto simp: in_set_conv_nth)
  from least last have "s \<le> 67"
    by (auto simp: at safe scores)
  from i(1) have "i = 0 \<or> i = 1 \<or> i = 2 \<or> i = 3" by arith
  with w(2) s i(2) \<open>s \<le> 67\<close> have "i = 3"
    by (auto simp: at safe scores)
  with res i(2) have "losingParticipantId m = Some 14"
    by (simp add: at who)
  with m tms who scores oneDie_four show ?thesis
    by simp
qed

lemma toak_faces:
  assumes "detectSpecialRoll [a, b, c] = three_of_a_kind"
  shows "die_value a = die_value b \<and> die_value b = die_value c"
  using assms by (auto simp: detectSpecialRoll_def idx_def Let_def split: if_splits)

lemma sips_faceBonus:
  assumes "validDice ds" "detectSpecialRoll ds = three_of_a_kind"
  shows "getThreeOfAKindSips (die_value (hd ds)) = faceBonus (repeatedFace ds)"
proof -
  from assms(1) obtain a b c where ds: "ds = [a, b, c]"
    by (auto simp: validDice_def length_Suc_conv numeral_3_eq_3)
  with assms(2) have eq: "die_value a = die_value b" "die_value b = die_value c"
    using toak_faces by simp_all
  with ds have rep: "repeatedFace ds = die_value a"
    by (simp add: repeatedFace_def)
  from assms(1) ds have "1 \<le> die_value a" "die_value a \<le> 6"
    by (simp_all add: validDice_def)
  then have "getThreeOfAKindSips (die_value a) = faceBonus (die_value a)"
    by (auto simp: getThreeOfAKindSips_def faceBonus_def)
  with ds rep show ?thesis by simp
qed

lemma turnModels_bonus:
  assumes "validRolls ts rollsByTurnId"
  shows "(\<Sum>t\<leftarrow>turnModels now ts rollsByTurnId. firstDieSips t)
         = (\<Sum>t\<leftarrow>turnModels now ts rollsByTurnId. turnBonus t)"
proof (rule arg_cong [where f = sum_list], rule map_cong [OF refl])
  fix tm
  assume "tm \<in> set (turnModels now ts rollsByTurnId)"
  then obtain t where t: "t \<in> set ts"
    and tm: "tm = mapPlayerTurn now t (getOrEmpty rollsByTurnId (turn_id t))"
    by (auto simp: turnModels_def)
  let ?rs = "getOrEmpty rollsByTurnId (turn_id t)"
  show "firstDieSips tm = turnBonus tm"
  proof (cases "specialRollType tm = three_of_a_kind")
    case False
    then show ?thesis by (simp add: firstDieSips_def turnBonus_def)
  next
    case True
    with tm have ne: "?rs \<noteq> []" and d: "dice (last (rolls tm)) = dice (last ?rs)"
      and cat: "detectSpecialRoll (dice (last ?rs)) = three_of_a_kind"
      by (simp_all add: mapPlayerTurn_toak_rolls)
    from ne have "last ?rs \<in> set ?rs" by simp
    with assms t have "validDice (dice (last ?rs))"
      by (simp add: validRolls_def)
    from sips_faceBonus [OF this cat] True d show ?thesis
      by (simp add: firstDieSips_def turnBonus_def)
  qed
qed

text \<open>
  C4: on valid dice sets, \<open>currentPenaltySips\<close> is 1 plus, for each turn whose category is three
  of a kind, the bonus of the repeated face of its last roll (7 for face 1, 6 for face 6, \<open>n\<close>
  for a face \<open>n\<close> in 2..5), whether or not the round is complete; it is 1 when no turn is a three
  of a kind; \<open>finalPenaltySips\<close> is \<open>currentPenaltySips\<close> for a complete round and \<open>null\<close>
  otherwise.
\<close>

theorem mapRound_penalty:
  assumes "validRolls ts rollsByTurnId"
  shows "\<exists>m. mapRound now round ts rollsByTurnId = Inr m
           \<and> turns m = turnModels now ts rollsByTurnId
           \<and> currentPenaltySips m = 1 + (\<Sum>t\<leftarrow>turns m. turnBonus t)
           \<and> ((\<forall>t\<in>set (turns m). specialRollType t \<noteq> three_of_a_kind)
                 \<longrightarrow> currentPenaltySips m = 1)
           \<and> finalPenaltySips m =
               (if length ts = length (playerOrder round) then Some (currentPenaltySips m) else None)"
proof -
  from mapRound_returns [OF validRolls_oneDie [OF assms], of now round] obtain m where
    m: "mapRound now round ts rollsByTurnId = Inr m"
    and tms: "turns m = turnModels now ts rollsByTurnId"
    and cur: "currentPenaltySips m = 1 + (\<Sum>t\<leftarrow>turnModels now ts rollsByTurnId. firstDieSips t)"
    and fin: "finalPenaltySips m =
      (if length ts = length (playerOrder round) then Some (currentPenaltySips m) else None)"
    by blast
  from cur tms have sum: "currentPenaltySips m = 1 + (\<Sum>t\<leftarrow>turns m. turnBonus t)"
    by (simp add: turnModels_bonus [OF assms])
  have "currentPenaltySips m = 1" if "\<forall>t\<in>set (turns m). specialRollType t \<noteq> three_of_a_kind"
  proof -
    have "map turnBonus (turns m) = map (\<lambda>t. 0) (turns m)"
      by (rule map_cong [OF refl]) (simp add: turnBonus_def that)
    then have "(\<Sum>t\<leftarrow>turns m. turnBonus t) = (\<Sum>t\<leftarrow>turns m. 0)"
      by (simp only:)
    then have "(\<Sum>t\<leftarrow>turns m. turnBonus t) = 0"
      by simp
    with sum show ?thesis by simp
  qed
  with m tms sum fin show ?thesis by blast
qed

theorem mapRound_penalty_witness:
  "validRolls fourTurns fourRolls
   \<and> (\<exists>m. mapRound 0 aRound fourTurns fourRolls = Inr m \<and> currentPenaltySips m = 4
          \<and> finalPenaltySips m = Some 4)"
proof -
  from mapRound_penalty [OF valid_four, of 0 aRound] obtain m where
    m: "mapRound 0 aRound fourTurns fourRolls = Inr m"
    and tms: "turns m = turnModels 0 fourTurns fourRolls"
    and cur: "currentPenaltySips m = 1 + (\<Sum>t\<leftarrow>turns m. turnBonus t)"
    and fin: "finalPenaltySips m =
      (if length fourTurns = length (playerOrder aRound) then Some (currentPenaltySips m) else None)"
    by blast
  have "(\<Sum>t\<leftarrow>turnModels 0 fourTurns fourRolls. turnBonus t) = 3"
    by (simp add: turnModels_def turnBonus_def repeatedFace_def faceBonus_def run_defs)
  with cur tms have "currentPenaltySips m = 4" by simp
  moreover from this fin have "finalPenaltySips m = Some 4"
    by (simp add: fourTurns_def aRound_def)
  ultimately show ?thesis
    using m valid_four by simp
qed

theorem findLoserFromTurns_tie_break_witness:
  "(\<exists>t\<in>set (turnModels 0 fourTurns tieRolls). \<not> isSafe t)
   \<and> finalScore (turnModels 0 fourTurns tieRolls ! 1) = Some 7
   \<and> finalScore (turnModels 0 fourTurns tieRolls ! 3) = Some 7
   \<and> findLoserFromTurns (turnModels 0 fourTurns tieRolls) = Some 12"
proof -
  let ?ts = "turnModels 0 fourTurns tieRolls"
  have len: "length ?ts = 4"
    by (simp add: turnModels_def fourTurns_def)
  have safe: "\<not> isSafe (?ts ! 0)" "\<not> isSafe (?ts ! 1)" "isSafe (?ts ! 2)" "\<not> isSafe (?ts ! 3)"
    by (simp_all add: turnModels_def tieRolls_def run_defs)
  have scores: "finalScore (?ts ! 0) = Some 10" "finalScore (?ts ! 1) = Some 7"
    "finalScore (?ts ! 3) = Some 7"
    by (simp_all add: turnModels_def tieRolls_def run_defs)
  have who: "participantId (?ts ! 1) = 12"
    by (simp add: turnModels_def tieRolls_def run_defs)
  from len safe(1) have unsafe: "\<exists>t\<in>set ?ts. \<not> isSafe t"
    by (metis nth_mem zero_less_numeral)
  from findLoserFromTurns_tie_break [OF unsafe] obtain i where
    i: "i < length ?ts" "\<not> isSafe (?ts ! i)"
    and res: "findLoserFromTurns ?ts = Some (participantId (?ts ! i))"
    and least: "\<forall>j<length ?ts. \<not> isSafe (?ts ! j)
                  \<longrightarrow> \<not> scoreLess (finalScore (?ts ! j)) (finalScore (?ts ! i))"
    and first: "\<forall>j<i. \<not> isSafe (?ts ! j)
                  \<longrightarrow> scoreLess (finalScore (?ts ! i)) (finalScore (?ts ! j))"
    by blast
  from i(1) len have "i = 0 \<or> i = 1 \<or> i = 2 \<or> i = 3" by arith
  moreover have "i \<noteq> 0"
  proof
    assume "i = 0"
    with least len safe(2) have "\<not> scoreLess (finalScore (?ts ! 1)) (finalScore (?ts ! 0))"
      by simp
    with scores show False by simp
  qed
  moreover from i(2) safe(3) have "i \<noteq> 2" by auto
  moreover have "i \<noteq> 3"
  proof
    assume "i = 3"
    with first safe(2) have "scoreLess (finalScore (?ts ! 3)) (finalScore (?ts ! 1))"
      by simp
    with scores show False by simp
  qed
  ultimately have "i = 1" by simp
  with res who have "findLoserFromTurns ?ts = Some 12" by simp
  with unsafe scores show ?thesis by simp
qed


section \<open>The turn without rolls\<close>

lemma mapPlayerTurn_rolled_positive:
  assumes "rs \<noteq> []" "validDice (dice (last rs))" "\<not> isSafe (mapPlayerTurn now turn rs)"
  shows "\<exists>s. finalScore (mapPlayerTurn now turn rs) = Some s \<and> 0 < s"
proof -
  from assms(2) have "scoreOrZero (calculateScore (dice (last rs))) = pointTotal (dice (last rs))"
    by (simp add: calculateScore_valid scoreOrZero_def)
  with assms(1,3) have "finalScore (mapPlayerTurn now turn rs) = Some (pointTotal (dice (last rs)))"
    by (simp add: mapPlayerTurn_nonempty)
  with pointTotal_pos [OF assms(2)] show ?thesis by simp
qed

lemma zero_roll_turn_loses:
  assumes valid: "validRolls ts rollsByTurnId"
    and z: "z \<in> set ts" "getOrEmpty rollsByTurnId (turn_id z) = []"
  shows "\<exists>t\<in>set ts. getOrEmpty rollsByTurnId (turn_id t) = []
           \<and> findLoserFromTurns (turnModels now ts rollsByTurnId) = Some (participantId t)"
proof -
  let ?tms = "turnModels now ts rollsByTurnId"
  let ?zm = "mapPlayerTurn now z []"
  from z have zm_in: "?zm \<in> set ?tms"
    by (force simp: turnModels_def)
  have zm: "\<not> isSafe ?zm" "finalScore ?zm = Some 0"
    by (simp_all add: mapPlayerTurn_empty)
  from zm_in zm(1) have "\<exists>t\<in>set ?tms. \<not> isSafe t" by blast
  from findLoserFromTurns_min [OF this turnModels_unsafe_scored] obtain w s where
    w_in: "w \<in> set ?tms" and w: "\<not> isSafe w"
    and res: "findLoserFromTurns ?tms = Some (participantId w)"
    and s: "finalScore w = Some s"
    and least: "\<forall>t\<in>set ?tms. \<not> isSafe t \<longrightarrow> (\<exists>s'. finalScore t = Some s' \<and> s \<le> s')"
    by blast
  from least zm_in zm have "s \<le> 0" by fastforce
  from w_in obtain t where t: "t \<in> set ts"
    and w_eq: "w = mapPlayerTurn now t (getOrEmpty rollsByTurnId (turn_id t))"
    by (auto simp: turnModels_def)
  let ?rs = "getOrEmpty rollsByTurnId (turn_id t)"
  have "?rs = []"
  proof (rule ccontr)
    assume ne: "?rs \<noteq> []"
    then have "last ?rs \<in> set ?rs" by simp
    with valid t have "validDice (dice (last ?rs))"
      by (simp add: validRolls_def)
    from mapPlayerTurn_rolled_positive [OF ne this, of now t] w w_eq s have "0 < s" by auto
    with \<open>s \<le> 0\<close> show False by simp
  qed
  moreover from w_eq have "participantId w = participantId t"
    by (simp add: mapPlayerTurn_keeps)
  ultimately show ?thesis
    using t res by auto
qed

text \<open>
  C10: for a turn with an empty roll list \<open>mapPlayerTurn\<close> returns \<open>totalRollsUsed = 0\<close>, the
  category none, \<open>isSafe = false\<close> and \<open>finalScore = 0\<close> (a number, not \<open>null\<close>). Every unsafe
  turn that ends on a valid roll has a final score above 0, so in the loser comparison of a
  round with valid rolls a turn without rolls is the loser.
\<close>

theorem mapPlayerTurn_zero_rolls:
  "totalRollsUsed (mapPlayerTurn now turn []) = 0
   \<and> specialRollType (mapPlayerTurn now turn []) = none
   \<and> isSafe (mapPlayerTurn now turn []) = False
   \<and> finalScore (mapPlayerTurn now turn []) = Some 0
   \<and> (\<forall>turn' rs. rs \<noteq> [] \<and> validDice (dice (last rs)) \<and> \<not> isSafe (mapPlayerTurn now turn' rs)
         \<longrightarrow> (\<exists>s. finalScore (mapPlayerTurn now turn' rs) = Some s \<and> 0 < s))
   \<and> (\<forall>ts rollsByTurnId.
         validRolls ts rollsByTurnId \<and> turn \<in> set ts \<and> getOrEmpty rollsByTurnId (turn_id turn) = []
         \<longrightarrow> (\<exists>t\<in>set ts. getOrEmpty rollsByTurnId (turn_id t) = []
               \<and> findLoserFromTurns (turnModels now ts rollsByTurnId) = Some (participantId t)))"
proof -
  have fields: "totalRollsUsed (mapPlayerTurn now turn []) = 0
      \<and> specialRollType (mapPlayerTurn now turn []) = none
      \<and> isSafe (mapPlayerTurn now turn []) = False
      \<and> finalScore (mapPlayerTurn now turn []) = Some 0"
    by (simp add: mapPlayerTurn_empty)
  have rolled: "\<forall>turn' rs. rs \<noteq> [] \<and> validDice (dice (last rs)) \<and> \<not> isSafe (mapPlayerTurn now turn' rs)
         \<longrightarrow> (\<exists>s. finalScore (mapPlayerTurn now turn' rs) = Some s \<and> 0 < s)"
    using mapPlayerTurn_rolled_positive by blast
  have loses: "\<forall>ts rollsByTurnId.
         validRolls ts rollsByTurnId \<and> turn \<in> set ts \<and> getOrEmpty rollsByTurnId (turn_id turn) = []
         \<longrightarrow> (\<exists>t\<in>set ts. getOrEmpty rollsByTurnId (turn_id t) = []
               \<and> findLoserFromTurns (turnModels now ts rollsByTurnId) = Some (participantId t))"
    using zero_roll_turn_loses by blast
  from fields rolled loses show ?thesis by blast
qed

theorem mapPlayerTurn_zero_rolls_witness:
  "validRolls threeTurns noRollsYet \<and> aTurn 3 13 \<in> set threeTurns
   \<and> getOrEmpty noRollsYet (turn_id (aTurn 3 13)) = []
   \<and> finalScore (mapPlayerTurn 0 (aTurn 3 13) []) = Some 0
   \<and> finalScore (mapPlayerTurn 0 (aTurn 2 12) [aRoll 2 1 2 2 3]) = Some 7
   \<and> findLoserFromTurns (turnModels 0 threeTurns noRollsYet) = Some 13"
proof -
  have v: "validRolls threeTurns noRollsYet"
    by (simp add: validRolls_def threeTurns_def noRollsYet_def getOrEmpty_def aTurn_def aRoll_def
        validDice_def face_def)
  have z: "aTurn 3 13 \<in> set threeTurns" "getOrEmpty noRollsYet (turn_id (aTurn 3 13)) = []"
    by (simp_all add: threeTurns_def noRollsYet_def getOrEmpty_def aTurn_def)
  from mapPlayerTurn_zero_rolls [of 0 "aTurn 3 13"] v z obtain t where
    t: "t \<in> set threeTurns" "getOrEmpty noRollsYet (turn_id t) = []"
    and res: "findLoserFromTurns (turnModels 0 threeTurns noRollsYet) = Some (participantId t)"
    by blast
  from t have "t = aTurn 3 13"
    by (auto simp: threeTurns_def noRollsYet_def getOrEmpty_def aTurn_def)
  with res have "findLoserFromTurns (turnModels 0 threeTurns noRollsYet) = Some 13"
    by (simp add: aTurn_def)
  moreover have "finalScore (mapPlayerTurn 0 (aTurn 3 13) []) = Some 0"
    using mapPlayerTurn_zero_rolls [of 0 "aTurn 3 13"] by simp
  moreover have "finalScore (mapPlayerTurn 0 (aTurn 2 12) [aRoll 2 1 2 2 3]) = Some 7"
    by (simp add: run_defs)
  ultimately show ?thesis
    using v z by simp
qed

section \<open>The turn-order generator\<close>

lemma swap_length [simp]: "length (swap i j xs) = length xs"
  by (simp add: swap_def)

lemma mset_swap_in_range:
  assumes "i < length xs" "j < length xs"
  shows "mset (swap i j xs) = mset xs"
  using assms by (simp add: swap_def mset_swap)

lemma shuffleLoop_mset:
  assumes "\<forall>k. rnd k \<le> k" "i < length xs \<or> i = 0"
  shows "mset (shuffleLoop rnd i xs) = mset xs"
  using assms(2)
proof (induction i arbitrary: xs)
  case 0
  then show ?case by simp
next
  case (Suc i)
  then have i: "Suc i < length xs" by simp
  from assms(1) have "rnd (Suc i) \<le> Suc i" by simp
  with i have j: "rnd (Suc i) < length xs" by simp
  from i have "i < length (swap (Suc i) (rnd (Suc i)) xs) \<or> i = 0" by simp
  from Suc.IH [OF this] i j show ?case
    by (simp add: mset_swap_in_range)
qed

lemma shuffleArray_mset:
  assumes "\<forall>k. rnd k \<le> k"
  shows "mset (shuffleArray rnd xs) = mset xs"
proof -
  have "length xs - 1 < length xs \<or> length xs - 1 = 0" by arith
  from shuffleLoop_mset [OF assms this] show ?thesis
    by (simp add: shuffleArray_def)
qed

lemma filter_neq_remove1:
  assumes "distinct xs"
  shows "filter (\<lambda>i. i \<noteq> s) xs = remove1 s xs"
proof -
  have "(\<lambda>i. i \<noteq> s) = (\<lambda>i. s \<noteq> i)" by auto
  with assms show ?thesis
    by (simp add: distinct_remove1_removeAll removeAll_filter_not_eq)
qed

text \<open>
  C6: for a starting participant that occurs in the duplicate-free list of participants, and
  random choices within their range, \<open>createPlayerOrder\<close> without shuffling returns the
  starting participant followed by the other participants in their original order (so
  \<open>createPlayerOrder(5, [1,2,3,5], false) = [5,1,2,3]\<close>); with or without shuffling the result
  is a permutation of the participants with the starting participant at position 0.
\<close>

theorem createPlayerOrder_permutation:
  assumes "distinct allIds" "startId \<in> set allIds" "\<forall>k. rnd k \<le> k"
  shows "createPlayerOrder rnd startId allIds False = startId # remove1 startId allIds
       \<and> mset (createPlayerOrder rnd startId allIds shuffleOrder) = mset allIds
       \<and> idx (createPlayerOrder rnd startId allIds shuffleOrder) 0 = Some startId
       \<and> createPlayerOrder rnd 5 [1, 2, 3, 5] False = [5, 1, 2, 3]"
proof -
  let ?rem = "filter (\<lambda>i. i \<noteq> startId) allIds"
  from assms(1) have rem: "?rem = remove1 startId allIds"
    by (rule filter_neq_remove1)
  have plain: "createPlayerOrder rnd startId allIds False = startId # remove1 startId allIds"
    by (simp add: createPlayerOrder_def rem)
  have "mset (if shuffleOrder then shuffleArray rnd ?rem else ?rem) = mset ?rem"
    by (simp add: shuffleArray_mset [OF assms(3)])
  moreover have "createPlayerOrder rnd startId allIds shuffleOrder
        = startId # (if shuffleOrder then shuffleArray rnd ?rem else ?rem)"
    by (simp add: createPlayerOrder_def Let_def)
  ultimately have "mset (createPlayerOrder rnd startId allIds shuffleOrder)
             = add_mset startId (mset ?rem)"
    by (simp only: mset.simps)
  also have "\<dots> = add_mset startId (mset (remove1 startId allIds))"
    by (simp only: rem)
  also from assms(2) have "\<dots> = mset allIds"
    by simp
  finally have perm: "mset (createPlayerOrder rnd startId allIds shuffleOrder) = mset allIds" .
  have first: "idx (createPlayerOrder rnd startId allIds shuffleOrder) 0 = Some startId"
    by (simp add: createPlayerOrder_def idx_def Let_def)
  have example: "createPlayerOrder rnd 5 [1, 2, 3, 5] False = [5, 1, 2, 3]"
    by (simp add: createPlayerOrder_def)
  from plain perm first example show ?thesis by simp
qed

theorem createPlayerOrder_permutation_witness:
  "distinct [1, 2, 3, 5 :: int] \<and> (5 :: int) \<in> set [1, 2, 3, 5]
   \<and> createPlayerOrder (\<lambda>k. k div 2) 5 [1, 2, 3, 5] False = [5, 1, 2, 3]
   \<and> createPlayerOrder (\<lambda>k. k div 2) 5 [1, 2, 3, 5] True = [5, 3, 1, 2]
   \<and> mset (createPlayerOrder (\<lambda>k. k div 2) 5 [1, 2, 3, 5] True) = mset [1, 2, 3, 5]"
proof -
  have d: "distinct [1, 2, 3, 5 :: int]" and m: "(5 :: int) \<in> set [1, 2, 3, 5]"
    and r: "\<forall>k::nat. k div 2 \<le> k"
    by simp_all
  from createPlayerOrder_permutation [OF d m r, of True]
  have "mset (createPlayerOrder (\<lambda>k. k div 2) 5 [1, 2, 3, 5] True) = mset [1, 2, 3, 5]"
    and "createPlayerOrder (\<lambda>k. k div 2) 5 [1, 2, 3, 5] False = [5, 1, 2, 3]"
    by simp_all
  moreover have "createPlayerOrder (\<lambda>k. k div 2) 5 [1, 2, 3, 5] True = [5, 3, 1, 2]"
    by (simp add: createPlayerOrder_def shuffleArray_def swap_def numeral_2_eq_2)
  ultimately show ?thesis
    using d m by simp
qed

section \<open>The context resolver\<close>

lemma find_distinct_key:
  assumes "distinct (map f xs)"
  shows "find (\<lambda>t. f t = k) xs = Some p \<longleftrightarrow> p \<in> set xs \<and> f p = k"
  using assms by (induction xs) auto

lemma find_None_key: "find (\<lambda>t. f t = k) xs = None \<longleftrightarrow> (\<forall>t\<in>set xs. f t \<noteq> k)"
  by (auto simp: find_None_iff)

lemma set_getPlayerTurnsByRound:
  "set (getPlayerTurnsByRound db rid gsid)
   = {t \<in> set (playerTurnsTable db). turn_gameSessionId t = gsid \<and> roundId t = rid}"
  by (simp add: getPlayerTurnsByRound_def)

lemma wasPreviousTurnStairs_first:
  assumes "currentTurnOrder \<le> 1"
  shows "\<not> wasPreviousTurnStairs now db rid currentTurnOrder gsid"
  using assms by (simp add: wasPreviousTurnStairs_def)

lemma wasPreviousTurnStairs_iff:
  assumes "distinct (map turnOrder (getPlayerTurnsByRound db rid gsid))"
  shows "wasPreviousTurnStairs now db rid currentTurnOrder gsid
         = (1 < currentTurnOrder
            \<and> (\<exists>p\<in>set (playerTurnsTable db).
                  turn_gameSessionId p = gsid \<and> roundId p = rid
                  \<and> turnOrder p = currentTurnOrder - 1
                  \<and> specialRollType (mapPlayerTurn now p (getRollsByPlayerTurn db (turn_id p) gsid))
                      = stairs))"
proof (cases "currentTurnOrder \<le> 1")
  case True
  then show ?thesis by (simp add: wasPreviousTurnStairs_def)
next
  case False
  let ?ts = "getPlayerTurnsByRound db rid gsid"
  let ?cat = "\<lambda>p. specialRollType (mapPlayerTurn now p (getRollsByPlayerTurn db (turn_id p) gsid))"
  show ?thesis
  proof (cases "find (\<lambda>t. turnOrder t = currentTurnOrder - 1) ?ts")
    case None
    then have "\<forall>t\<in>set ?ts. turnOrder t \<noteq> currentTurnOrder - 1"
      by (simp add: find_None_key)
    then have "\<not> (\<exists>p\<in>set (playerTurnsTable db).
                  turn_gameSessionId p = gsid \<and> roundId p = rid
                  \<and> turnOrder p = currentTurnOrder - 1 \<and> ?cat p = stairs)"
      by (auto simp: set_getPlayerTurnsByRound)
    with None False show ?thesis
      by (simp add: wasPreviousTurnStairs_def)
  next
    case (Some p)
    with assms have p: "p \<in> set ?ts" "turnOrder p = currentTurnOrder - 1"
      by (simp_all add: find_distinct_key)
    have only: "q = p" if "q \<in> set ?ts" "turnOrder q = currentTurnOrder - 1" for q
    proof -
      from assms that have "find (\<lambda>t. turnOrder t = currentTurnOrder - 1) ?ts = Some q"
        by (simp add: find_distinct_key)
      with Some show ?thesis by simp
    qed
    have "(\<exists>q\<in>set (playerTurnsTable db).
                  turn_gameSessionId q = gsid \<and> roundId q = rid
                  \<and> turnOrder q = currentTurnOrder - 1 \<and> ?cat q = stairs) = (?cat p = stairs)"
    proof
      assume "\<exists>q\<in>set (playerTurnsTable db).
                  turn_gameSessionId q = gsid \<and> roundId q = rid
                  \<and> turnOrder q = currentTurnOrder - 1 \<and> ?cat q = stairs"
      then obtain q where "q \<in> set ?ts" "turnOrder q = currentTurnOrder - 1" "?cat q = stairs"
        by (auto simp: set_getPlayerTurnsByRound)
      with only show "?cat p = stairs" by blast
    next
      assume "?cat p = stairs"
      with p show "\<exists>q\<in>set (playerTurnsTable db).
                  turn_gameSessionId q = gsid \<and> roundId q = rid
                  \<and> turnOrder q = currentTurnOrder - 1 \<and> ?cat q = stairs"
        by (auto simp: set_getPlayerTurnsByRound)
    qed
    with Some False show ?thesis
      by (simp add: wasPreviousTurnStairs_def)
  qed
qed

lemma isSuperStairsValid_three:
  "isSuperStairsValid [d1, d2, d3] prev = (sort (map die_value [d1, d2, d3]) = [4, 5, 6] \<and> prev)"
  by (auto simp: isSuperStairsValid_def idx_def Let_def)

text \<open>
  C5: on a dice set of three faces, \<open>isSuperStairsValid\<close> is true exactly when the sorted faces
  are \<open>[4,5,6]\<close> and the flag for the previous turn is set, and \<open>validateSuperStairs\<close> passes
  it the result of \<open>wasPreviousTurnStairs\<close>. That result is false on the first turn of a round
  (\<open>turnOrder \<le> 1\<close>); when the turn orders of the round are distinct, it is true exactly
  when the turn of the same round whose \<open>turnOrder\<close> is one less has the category stairs.
\<close>

theorem isSuperStairsValid_context:
  "isSuperStairsValid [d1, d2, d3] prev = (sort (map die_value [d1, d2, d3]) = [4, 5, 6] \<and> prev)
   \<and> validateSuperStairs now db rid currentTurnOrder [d1, d2, d3] gsid
       = (sort (map die_value [d1, d2, d3]) = [4, 5, 6]
          \<and> wasPreviousTurnStairs now db rid currentTurnOrder gsid)
   \<and> (currentTurnOrder \<le> 1 \<longrightarrow>
         \<not> wasPreviousTurnStairs now db rid currentTurnOrder gsid
         \<and> \<not> validateSuperStairs now db rid currentTurnOrder [d1, d2, d3] gsid)
   \<and> (distinct (map turnOrder (getPlayerTurnsByRound db rid gsid)) \<longrightarrow>
         wasPreviousTurnStairs now db rid currentTurnOrder gsid
         = (1 < currentTurnOrder
            \<and> (\<exists>p\<in>set (playerTurnsTable db).
                  turn_gameSessionId p = gsid \<and> roundId p = rid
                  \<and> turnOrder p = currentTurnOrder - 1
                  \<and> specialRollType (mapPlayerTurn now p (getRollsByPlayerTurn db (turn_id p) gsid))
                      = stairs)))"
proof -
  have v: "validateSuperStairs now db rid currentTurnOrder [d1, d2, d3] gsid
       = (sort (map die_value [d1, d2, d3]) = [4, 5, 6]
          \<and> wasPreviousTurnStairs now db rid currentTurnOrder gsid)"
    unfolding validateSuperStairs_def by (rule isSuperStairsValid_three)
  have f: "\<not> wasPreviousTurnStairs now db rid currentTurnOrder gsid
         \<and> \<not> validateSuperStairs now db rid currentTurnOrder [d1, d2, d3] gsid"
    if "currentTurnOrder \<le> 1"
    using that v by (simp add: wasPreviousTurnStairs_first)
  from isSuperStairsValid_three [of d1 d2 d3 prev] v f wasPreviousTurnStairs_iff [of db rid gsid now currentTurnOrder]
  show ?thesis by blast
qed

lemma aDatabase_turns:
  "getPlayerTurnsByRound aDatabase 1 1 = [aTurn 1 11, aTurn 2 12]"
  by (simp add: getPlayerTurnsByRound_def aDatabase_def aTurn_def)

lemma aDatabase_rolls:
  "getRollsByPlayerTurn aDatabase 1 1 = [aRoll 1 1 2 2 5, aRoll 1 2 3 1 2]"
  by (simp add: getRollsByPlayerTurn_def aDatabase_def aRoll_def)

theorem isSuperStairsValid_context_witness:
  "distinct (map turnOrder (getPlayerTurnsByRound aDatabase 1 1))
   \<and> wasPreviousTurnStairs 0 aDatabase 1 2 1
   \<and> validateSuperStairs 0 aDatabase 1 2 [face 6, face 4, face 5] 1
   \<and> \<not> validateSuperStairs 0 aDatabase 1 1 [face 6, face 4, face 5] 1
   \<and> \<not> validateSuperStairs 0 aDatabase 1 3 [face 6, face 4, face 5] 1"
proof -
  have d: "distinct (map turnOrder (getPlayerTurnsByRound aDatabase 1 1))"
    by (simp add: aDatabase_turns aTurn_def)
  have t1: "aTurn 1 11 \<in> set (playerTurnsTable aDatabase)"
    and t2: "aTurn 2 12 \<in> set (playerTurnsTable aDatabase)"
    by (simp_all add: aDatabase_def)
  have cat1: "specialRollType (mapPlayerTurn 0 (aTurn 1 11)
                (getRollsByPlayerTurn aDatabase (turn_id (aTurn 1 11)) 1)) = stairs"
    by (simp add: aTurn_def aDatabase_rolls mapPlayerTurn_nonempty aRoll_def face_def
        detectSpecialRoll_def idx_def)
  have cat2: "specialRollType (mapPlayerTurn 0 (aTurn 2 12)
                (getRollsByPlayerTurn aDatabase (turn_id (aTurn 2 12)) 1)) = super_stairs"
    by (simp add: aTurn_def getRollsByPlayerTurn_def aDatabase_def mapPlayerTurn_nonempty
        aRoll_def face_def detectSpecialRoll_def idx_def)
  have six: "sort (map die_value [face 6, face 4, face 5]) = [4, 5, 6]"
    by (simp add: face_def)
  note inst = isSuperStairsValid_context [of "face 6" "face 4" "face 5" _ 0 aDatabase 1 _ 1]
  have prev2: "wasPreviousTurnStairs 0 aDatabase 1 2 1"
  proof -
    have "\<exists>p\<in>set (playerTurnsTable aDatabase).
            turn_gameSessionId p = 1 \<and> roundId p = 1 \<and> turnOrder p = 2 - 1
            \<and> specialRollType (mapPlayerTurn 0 p (getRollsByPlayerTurn aDatabase (turn_id p) 1))
                = stairs"
      using t1 cat1 by (intro bexI [of _ "aTurn 1 11"]) (simp_all add: aTurn_def)
    with inst [of True 2] d show ?thesis by simp
  qed
  with inst [of True 2] six have v2: "validateSuperStairs 0 aDatabase 1 2 [face 6, face 4, face 5] 1"
    by simp
  from inst [of True 1] have v1: "\<not> validateSuperStairs 0 aDatabase 1 1 [face 6, face 4, face 5] 1"
    by simp
  have "\<not> wasPreviousTurnStairs 0 aDatabase 1 3 1"
  proof -
    have "\<not> (\<exists>p\<in>set (playerTurnsTable aDatabase).
            turn_gameSessionId p = 1 \<and> roundId p = 1 \<and> turnOrder p = 3 - 1
            \<and> specialRollType (mapPlayerTurn 0 p (getRollsByPlayerTurn aDatabase (turn_id p) 1))
                = stairs)"
      using cat2 by (auto simp: aDatabase_def aTurn_def)
    with inst [of True 3] d show ?thesis by simp
  qed
  with inst [of True 3] have v3: "\<not> validateSuperStairs 0 aDatabase 1 3 [face 6, face 4, face 5] 1"
    by simp
  from d prev2 v2 v1 v3 show ?thesis by simp
qed

section \<open>The mappers and the wall clock\<close>









end
